theory Spec2Isabelle
  imports Complex_Main
begin

section \<open>Python values used by the controller part\<close>

text \<open>
  Exceptions are values. Floats are modelled as exact reals, Python's \<open>None\<close> as the
  \<open>None\<close> of an option type. Printing is not modelled: it changes no state.
\<close>

datatype error =
    ValueError | ZeroDivisionError | StopIteration | AttributeError | TypeError | IndexError

text \<open>\<open>math.sqrt\<close> raises \<open>ValueError\<close> on a negative argument.\<close>

definition math_sqrt :: "real \<Rightarrow> error + real" where
  "math_sqrt x = (if x < 0 then Inl ValueError else Inr (sqrt x))"

text \<open>
  \<open>itertools.cycle\<close> over a list: the items still to come in this round, the next one
  first. \<open>next\<close> on a cycle over an empty list raises \<open>StopIteration\<close>.
\<close>

datatype 'a cycle = Cycle "'a list"

fun next_cycle :: "'a cycle \<Rightarrow> error + ('a \<times> 'a cycle)" where
  "next_cycle (Cycle []) = Inl StopIteration"
| "next_cycle (Cycle (x # xs)) = Inr (x, Cycle (xs @ [x]))"

text \<open>\<open>str.lower\<close> on ASCII letters, and the substring test \<open>a in b\<close>.\<close>

definition lower_char :: "char \<Rightarrow> char" where
  "lower_char c =
     (let n = (of_char c :: nat) in if 65 \<le> n \<and> n \<le> 90 then char_of (n + 32) else c)"

definition lower :: "string \<Rightarrow> string" where
  "lower s = map lower_char s"

fun str_in :: "string \<Rightarrow> string \<Rightarrow> bool" where
  "str_in a [] = (a = [])"
| "str_in a (c # cs) = (take (length a) (c # cs) = a \<or> str_in a cs)"

section \<open>BluetoothDevice: searching for the input device\<close>

text \<open>
  An attached input device, as \<open>evdev.InputDevice(path)\<close> presents it. The search term
  is a string, or the integer that \<open>__init__\<close> falls back to when neither the caller
  nor the configuration gives one.
\<close>

record input_device =
  name :: string
  path :: string

datatype search_term = Str string | Num int

definition likely_devices :: "string \<Rightarrow> input_device list \<Rightarrow> input_device list" where
  "likely_devices t all_devices =
     filter (\<lambda>device. str_in (lower t) (lower (name device))) all_devices"

text \<open>
  \<open>find_input_device\<close>, given the devices that \<open>evdev.list_devices()\<close> lists at this
  call. An integer search term has no \<open>lower\<close>: the first device examined raises
  \<open>AttributeError\<close>. A function body that ends without \<open>return\<close> gives \<open>None\<close>.
\<close>

definition find_input_device ::
    "search_term \<Rightarrow> input_device list \<Rightarrow> error + input_device option" where
  "find_input_device search_term all_devices =
     (case search_term of
        Num n \<Rightarrow> (if all_devices = [] then Inr None else Inl AttributeError)
      | Str t \<Rightarrow>
          (if length (likely_devices t all_devices) = 1
             then Inr (Some (hd (likely_devices t all_devices)))
           else if length (likely_devices t all_devices) \<ge> 2
             then Inl ValueError
           else Inr None))"

text \<open>
  The \<open>while device is None\<close> loop of \<open>load_device\<close>. \<open>env k\<close> is the device listing
  that the \<open>k\<close>-th lookup sees; \<open>slept\<close> adds up the seconds passed to \<open>time.sleep\<close>.
  A loop that never ends has the value \<open>None\<close>.
\<close>

partial_function (option) load_device_loop ::
    "search_term \<Rightarrow> (nat \<Rightarrow> input_device list) \<Rightarrow> nat \<Rightarrow> nat
      \<Rightarrow> (error + input_device \<times> nat) option" where
  "load_device_loop search_term env k slept =
     (case find_input_device search_term (env k) of
        Inl e \<Rightarrow> Some (Inl e)
      | Inr None \<Rightarrow> load_device_loop search_term env (Suc k) (slept + 3)
      | Inr (Some device) \<Rightarrow> Some (Inr (device, slept)))"

section \<open>BluetoothGameController\<close>

record raw_event =
  ev_type :: int
  ev_code :: int
  ev_value :: int

text \<open>\<open>ecodes.EV_ABS\<close> of the Linux input subsystem.\<close>

definition EV_ABS :: int where
  "EV_ABS = 3"

text \<open>What \<open>next(self.device.read_loop())\<close> does: it yields an event or raises \<open>OSError\<close>.\<close>

datatype read_outcome = Event raw_event | OSError

text \<open>The configuration file, as \<open>__init__\<close> consumes it.\<close>

record config =
  cfg_button_map :: "int \<rightharpoonup> string"
  cfg_joystick_max_value :: "real option"
  cfg_device_search_term :: "string option"

text \<open>The attributes of the controller object (\<open>self.u\<close> and \<open>self.v\<close> are \<open>stick_u\<close> and \<open>stick_v\<close>).\<close>

record controller =
  device :: "input_device option"
  verbose :: bool
  running :: bool
  state :: "string option \<rightharpoonup> real option"
  angle :: real
  throttle :: real
  stick_u :: real
  stick_v :: real
  angle_scale :: real
  angle_scale_increment :: real
  throttle_scale :: real
  throttle_scale_increment :: real
  y_axis_direction :: real
  drive_mode_toggle :: "string cycle"
  drive_mode_autonomous_toggle :: "string cycle"
  drive_mode :: string
  recording_toggle :: "bool cycle"
  recording :: bool
  btn_map :: "int \<rightharpoonup> string"
  joystick_max_value :: real
  device_search_term :: search_term

definition load_device ::
    "search_term \<Rightarrow> (nat \<Rightarrow> input_device list) \<Rightarrow> controller \<Rightarrow> (error + controller) option" where
  "load_device search_term env self =
     (case load_device_loop search_term env 0 0 of
        None \<Rightarrow> None
      | Some (Inl e) \<Rightarrow> Some (Inl e)
      | Some (Inr (dev, slept)) \<Rightarrow> Some (Inr (self\<lparr>device := Some dev\<rparr>)))"

subsection \<open>The geometric mapper\<close>

definition max0 :: "real \<Rightarrow> real" where
  "max0 x = max x 0"

definition circ_to_square :: "real \<Rightarrow> real \<Rightarrow> error + real \<times> real" where
  "circ_to_square u v =
     (case math_sqrt 2 of Inl e \<Rightarrow> Inl e | Inr sqrt2 \<Rightarrow>
     (case math_sqrt (max0 (2 + 2 * u * sqrt2 + u * u - v * v)) of Inl e \<Rightarrow> Inl e | Inr xp \<Rightarrow>
     (case math_sqrt (max0 (2 - 2 * u * sqrt2 + u * u - v * v)) of Inl e \<Rightarrow> Inl e | Inr xm \<Rightarrow>
     (case math_sqrt (max0 (2 + 2 * v * sqrt2 - u * u + v * v)) of Inl e \<Rightarrow> Inl e | Inr yp \<Rightarrow>
     (case math_sqrt (max0 (2 - 2 * v * sqrt2 - u * u + v * v)) of Inl e \<Rightarrow> Inl e | Inr ym \<Rightarrow>
        Inr (0.5 * (xp - xm), 0.5 * (yp - ym)))))))"

subsection \<open>The handlers of the dispatch table\<close>

text \<open>
  A handler receives the event value, which is a number or \<open>None\<close>. Arithmetic on
  \<open>None\<close> raises \<open>TypeError\<close>; \<open>None == 1\<close> is false.
\<close>

definition update_stick_x_map :: "real option \<Rightarrow> controller \<Rightarrow> error + controller" where
  "update_stick_x_map val self =
     (case val of
        None \<Rightarrow> Inl TypeError
      | Some w \<Rightarrow>
          (let self1 = self\<lparr>stick_u := w\<rparr> in
           (case circ_to_square (stick_u self1) (stick_v self1) of
              Inl e \<Rightarrow> Inl e
            | Inr (x, y) \<Rightarrow>
                Inr (self1\<lparr>angle := x * angle_scale self1,
                           throttle := y * throttle_scale self1 * y_axis_direction self1\<rparr>))))"

definition update_stick_y_map :: "real option \<Rightarrow> controller \<Rightarrow> error + controller" where
  "update_stick_y_map val self =
     (case val of
        None \<Rightarrow> Inl TypeError
      | Some w \<Rightarrow>
          (let self1 = self\<lparr>stick_v := w\<rparr> in
           (case circ_to_square (stick_u self1) (stick_v self1) of
              Inl e \<Rightarrow> Inl e
            | Inr (x, y) \<Rightarrow>
                Inr (self1\<lparr>angle := x * angle_scale self1,
                           throttle := y * throttle_scale self1 * y_axis_direction self1\<rparr>))))"

definition start_recording :: "real option \<Rightarrow> controller \<Rightarrow> error + controller" where
  "start_recording val self =
     (if val = Some 1 then Inr (self\<lparr>recording := True\<rparr>) else Inr self)"

definition stop_recording :: "real option \<Rightarrow> controller \<Rightarrow> error + controller" where
  "stop_recording val self =
     (if val = Some 1 then Inr (self\<lparr>recording := False\<rparr>) else Inr self)"

definition set_drive_mode_manual :: "real option \<Rightarrow> controller \<Rightarrow> error + controller" where
  "set_drive_mode_manual val self =
     (if val = Some 1 then Inr (self\<lparr>drive_mode := ''user''\<rparr>) else Inr self)"

definition toggle_drive_mode_autonomous :: "real option \<Rightarrow> controller \<Rightarrow> error + controller" where
  "toggle_drive_mode_autonomous val self =
     (if val = Some 1 then
        (let self1 =
           (if drive_mode self = ''user''
            then self\<lparr>drive_mode_autonomous_toggle := Cycle [''local_angle'', ''local'']\<rparr>
            else self) in
         (case next_cycle (drive_mode_autonomous_toggle self1) of
            Inl e \<Rightarrow> Inl e
          | Inr (m, c) \<Rightarrow> Inr (self1\<lparr>drive_mode_autonomous_toggle := c, drive_mode := m\<rparr>)))
      else Inr self)"

definition increment_angle_scale :: "real option \<Rightarrow> controller \<Rightarrow> error + controller" where
  "increment_angle_scale val self =
     (if val = Some 1
      then Inr (self\<lparr>angle_scale := angle_scale self + angle_scale_increment self\<rparr>)
      else Inr self)"

definition decrement_angle_scale :: "real option \<Rightarrow> controller \<Rightarrow> error + controller" where
  "decrement_angle_scale val self =
     (if val = Some 1
      then Inr (self\<lparr>angle_scale := angle_scale self - angle_scale_increment self\<rparr>)
      else Inr self)"

definition increment_throttle_scale :: "real option \<Rightarrow> controller \<Rightarrow> error + controller" where
  "increment_throttle_scale val self =
     (if val = Some 1
      then Inr (self\<lparr>throttle_scale := throttle_scale self + throttle_scale_increment self\<rparr>)
      else Inr self)"

definition decrement_throttle_scale :: "real option \<Rightarrow> controller \<Rightarrow> error + controller" where
  "decrement_throttle_scale val self =
     (if val = Some 1
      then Inr (self\<lparr>throttle_scale := throttle_scale self - throttle_scale_increment self\<rparr>)
      else Inr self)"

text \<open>\<open>self.func_map\<close>, and \<open>self.func_map.get(btn)\<close> for a name that may be \<open>None\<close>.\<close>

definition func_map :: "string \<rightharpoonup> (real option \<Rightarrow> controller \<Rightarrow> error + controller)" where
  "func_map = map_of
     [(''LEFT_STICK_X'', update_stick_x_map),
      (''LEFT_STICK_Y'', update_stick_y_map),
      (''X'', start_recording),
      (''Y'', stop_recording),
      (''B'', set_drive_mode_manual),
      (''A'', toggle_drive_mode_autonomous),
      (''PAD_RIGHT'', increment_angle_scale),
      (''PAD_LEFT'', decrement_angle_scale),
      (''PAD_UP'', increment_throttle_scale),
      (''PAD_DOWN'', decrement_throttle_scale)]"

definition func_map_get ::
    "string option \<Rightarrow> (real option \<Rightarrow> controller \<Rightarrow> error + controller) option" where
  "func_map_get btn = (case btn of None \<Rightarrow> None | Some b \<Rightarrow> func_map b)"

subsection \<open>Construction\<close>

text \<open>
  \<open>__init__\<close>, with the loaded configuration as an argument. \<open>a or b\<close> takes \<open>b\<close> when
  \<open>a\<close> is \<open>None\<close> or the empty string. \<open>env\<close> is the sequence of device listings that
  \<open>load_device\<close> sees when no device is passed in.
\<close>

definition init ::
    "input_device option \<Rightarrow> config \<Rightarrow> string option \<Rightarrow> bool \<Rightarrow> (nat \<Rightarrow> input_device list)
      \<Rightarrow> (error + controller) option" where
  "init event_input_device cfg search verbose_flag env =
     (case next_cycle (Cycle [''user'', ''local_angle'', ''local'']) of
        Inl e \<Rightarrow> Some (Inl e)
      | Inr (mode, mode_toggle) \<Rightarrow>
     (case next_cycle (Cycle [True, False]) of
        Inl e \<Rightarrow> Some (Inl e)
      | Inr (rec, rec_toggle) \<Rightarrow>
          (let self = \<lparr>device = None, verbose = verbose_flag, running = False,
                 state = Map.empty, angle = 0.0, throttle = 0.0,
                 stick_u = 0, stick_v = 0,
                 angle_scale = 1.0, angle_scale_increment = 0.05,
                 throttle_scale = 1.0, throttle_scale_increment = 0.05,
                 y_axis_direction = - 1,
                 drive_mode_toggle = mode_toggle,
                 drive_mode_autonomous_toggle = Cycle [''local_angle'', ''local''],
                 drive_mode = mode,
                 recording_toggle = rec_toggle, recording = rec,
                 btn_map = cfg_button_map cfg,
                 joystick_max_value =
                   (case cfg_joystick_max_value cfg of None \<Rightarrow> 1280 | Some m \<Rightarrow> m),
                 device_search_term =
                   (case search of
                      None \<Rightarrow>
                        (case cfg_device_search_term cfg of None \<Rightarrow> Num 1280 | Some t \<Rightarrow> Str t)
                    | Some given \<Rightarrow>
                        (if given = []
                         then (case cfg_device_search_term cfg of
                                 None \<Rightarrow> Num 1280 | Some t \<Rightarrow> Str t)
                         else Str given))\<rparr> in
           (case event_input_device of
              None \<Rightarrow> load_device (device_search_term self) env self
            | Some dev \<Rightarrow> Some (Inr (self\<lparr>device := Some dev\<rparr>))))))"

subsection \<open>Reading and dispatching one event\<close>

text \<open>
  \<open>read_loop\<close>: \<open>rd\<close> is the outcome of the blocking read, \<open>env\<close> the device listings
  seen while reconnecting. Dividing by a zero \<open>joystick_max_value\<close> raises
  \<open>ZeroDivisionError\<close>, which the \<open>except OSError\<close> clause does not catch; neither does
  it catch what \<open>load_device\<close> raises inside the clause.
\<close>

definition read_loop ::
    "read_outcome \<Rightarrow> (nat \<Rightarrow> input_device list) \<Rightarrow> controller
      \<Rightarrow> (error + (string option \<times> real option) \<times> controller) option" where
  "read_loop rd env self =
     (case rd of
        Event event \<Rightarrow>
          (let btn = btn_map self (ev_code event);
               val = real_of_int (ev_value event) in
           if ev_type event = EV_ABS then
             (if joystick_max_value self = 0 then Some (Inl ZeroDivisionError)
              else Some (Inr ((btn, Some (val / joystick_max_value self)), self)))
           else Some (Inr ((btn, Some val), self)))
      | OSError \<Rightarrow>
          (case load_device (device_search_term self) env self of
             None \<Rightarrow> None
           | Some (Inl e) \<Rightarrow> Some (Inl e)
           | Some (Inr self1) \<Rightarrow> Some (Inr ((None, None), self1))))"

definition update_state_from_loop ::
    "read_outcome \<Rightarrow> (nat \<Rightarrow> input_device list) \<Rightarrow> controller \<Rightarrow> (error + controller) option" where
  "update_state_from_loop rd env self =
     (case read_loop rd env self of
        None \<Rightarrow> None
      | Some (Inl e) \<Rightarrow> Some (Inl e)
      | Some (Inr ((btn, val), self1)) \<Rightarrow>
          (let self2 = self1\<lparr>state := (state self1)(btn \<mapsto> val)\<rparr> in
           (case func_map_get btn of
              None \<Rightarrow> Some (Inr self2)
            | Some func \<Rightarrow> Some (func val self2))))"

text \<open>\<open>run\<close> performs one update step and returns the four outputs; \<open>run_threaded\<close> only reads them.\<close>

definition run_threaded :: "controller \<Rightarrow> real \<times> real \<times> string \<times> bool" where
  "run_threaded self = (angle self, throttle self, drive_mode self, recording self)"

definition run ::
    "read_outcome \<Rightarrow> (nat \<Rightarrow> input_device list) \<Rightarrow> controller
      \<Rightarrow> (error + (real \<times> real \<times> string \<times> bool) \<times> controller) option" where
  "run rd env self =
     (case update_state_from_loop rd env self of
        None \<Rightarrow> None
      | Some (Inl e) \<Rightarrow> Some (Inl e)
      | Some (Inr self1) \<Rightarrow> Some (Inr (run_threaded self1, self1)))"

subsection \<open>The diagnostics profiler\<close>

text \<open>
  The \<open>while True\<close> loop of \<open>profile\<close>. \<open>clock\<close> gives the successive readings of
  \<open>time.time()\<close> and \<open>t\<close> counts the readings taken so far; every call of
  \<open>self.read_loop()\<close> is taken to return, and \<open>reads\<close> counts these calls. Dividing by
  an elapsed time of zero raises \<open>ZeroDivisionError\<close>.
\<close>

function profile_loop ::
    "(nat \<Rightarrow> real) \<Rightarrow> nat \<Rightarrow> nat \<Rightarrow> real \<Rightarrow> real list \<Rightarrow> nat \<Rightarrow> error + real list \<times> nat" where
  "profile_loop clock t event_total start_time results reads =
     (if event_total + 1 > 1000 then
        (if clock t - start_time = 0 then Inl ZeroDivisionError
         else if length (results @ [real (event_total + 1) / (clock t - start_time)]) > 9
           then Inr (results @ [real (event_total + 1) / (clock t - start_time)], reads + 1)
         else profile_loop clock (t + 2) 0 (clock (t + 1))
                (results @ [real (event_total + 1) / (clock t - start_time)]) (reads + 1))
      else profile_loop clock t (event_total + 1) start_time results (reads + 1))"
  by pat_completeness auto
termination
  by (relation "measure (\<lambda>(clock, t, event_total, start_time, results, reads).
        (10 - length results) * 1002 + (1001 - event_total))") auto

declare profile_loop.simps [simp del]

text \<open>
  \<open>profile\<close> returns what it prints (the maximum and the average), and the number of
  reads it made. \<open>xs[-1]\<close> of an empty list raises \<open>IndexError\<close>, and the average of an
  empty list divides by zero.
\<close>

definition profile :: "(nat \<Rightarrow> real) \<Rightarrow> error + real \<times> real \<times> nat" where
  "profile clock =
     (case profile_loop clock 1 0 (clock 0) [] 0 of
        Inl e \<Rightarrow> Inl e
      | Inr (results, reads) \<Rightarrow>
          (let sorted_results = sort results;
               best_5_results = drop 5 sorted_results in
           if best_5_results = [] then Inl IndexError
           else Inr (last best_5_results,
                     sum_list best_5_results / real (length best_5_results),
                     reads)))"

text \<open>
  The rate of batch \<open>j\<close> as the loop computes it: the clock is read at the end of the
  batch (reading \<open>2 * j + 1\<close>) and was read at its start (reading \<open>2 * j\<close>).
\<close>

definition batch_rate :: "(nat \<Rightarrow> real) \<Rightarrow> nat \<Rightarrow> real" where
  "batch_rate clock j = 1001 / (clock (2 * j + 1) - clock (2 * j))"

subsection \<open>Sequences of presses, and the invariant of the autonomous cycle\<close>

text \<open>
  \<open>press_autonomous n\<close> is \<open>n\<close> presses of the autonomous-toggle button in succession.
  \<open>cycle_in_step\<close> says that the autonomous cycle is where the current drive mode left it.
\<close>

fun press_autonomous :: "nat \<Rightarrow> controller \<Rightarrow> error + controller" where
  "press_autonomous 0 self = Inr self"
| "press_autonomous (Suc n) self =
     (case toggle_drive_mode_autonomous (Some 1) self of
        Inl e \<Rightarrow> Inl e
      | Inr self1 \<Rightarrow> press_autonomous n self1)"

definition cycle_in_step :: "controller \<Rightarrow> bool" where
  "cycle_in_step self =
     (drive_mode self = ''user''
      \<or> (drive_mode self = ''local_angle''
          \<and> drive_mode_autonomous_toggle self = Cycle [''local'', ''local_angle''])
      \<or> (drive_mode self = ''local''
          \<and> drive_mode_autonomous_toggle self = Cycle [''local_angle'', ''local'']))"

section \<open>Example values\<close>

definition wiiu_device :: input_device where
  "wiiu_device = \<lparr>name = ''Nintendo Wii Remote Pro Controller'', path = ''/dev/input/event4''\<rparr>"

definition keyboard_device :: input_device where
  "keyboard_device = \<lparr>name = ''AT Translated Set 2 keyboard'', path = ''/dev/input/event0''\<rparr>"

definition wiiu_config :: config where
  "wiiu_config = \<lparr>cfg_button_map = [0 \<mapsto> ''LEFT_STICK_X'', 1 \<mapsto> ''LEFT_STICK_Y'',
       304 \<mapsto> ''A'', 305 \<mapsto> ''B'', 307 \<mapsto> ''X'', 308 \<mapsto> ''Y''],
     cfg_joystick_max_value = Some 1280,
     cfg_device_search_term = Some ''nintendo''\<rparr>"

definition fresh_controller :: controller where
  "fresh_controller =
     \<lparr>device = Some wiiu_device, verbose = False, running = False,
      state = Map.empty, angle = 0, throttle = 0, stick_u = 0, stick_v = 0,
      angle_scale = 1, angle_scale_increment = 0.05,
      throttle_scale = 1, throttle_scale_increment = 0.05,
      y_axis_direction = - 1,
      drive_mode_toggle = Cycle [''local_angle'', ''local'', ''user''],
      drive_mode_autonomous_toggle = Cycle [''local_angle'', ''local''],
      drive_mode = ''user'',
      recording_toggle = Cycle [False, True], recording = True,
      btn_map = cfg_button_map wiiu_config,
      joystick_max_value = 1280,
      device_search_term = Str ''nintendo''\<rparr>"

text \<open>Device listings: the first two lookups see only a keyboard, later ones the controller too.\<close>

definition reappearing :: "nat \<Rightarrow> input_device list" where
  "reappearing k = (if k < 2 then [keyboard_device] else [keyboard_device, wiiu_device])"

text \<open>Device listings in which the controller never appears, and in which two names match.\<close>

definition no_match :: "nat \<Rightarrow> input_device list" where
  "no_match k = [keyboard_device]"

definition ambiguous :: "nat \<Rightarrow> input_device list" where
  "ambiguous k = [keyboard_device, wiiu_device]"

text \<open>A key event whose code the button map does not know.\<close>

definition unmapped_event :: raw_event where
  "unmapped_event = \<lparr>ev_type = 1, ev_code = 999, ev_value = 1\<rparr>"

text \<open>A press of the X button, and the left stick pushed half way to the right.\<close>

definition x_press_event :: raw_event where
  "x_press_event = \<lparr>ev_type = 1, ev_code = 307, ev_value = 1\<rparr>"

definition stick_x_event :: raw_event where
  "stick_x_event = \<lparr>ev_type = 3, ev_code = 0, ev_value = 640\<rparr>"

section \<open>Properties of the geometric mapper\<close>

lemma math_sqrt_max0: "math_sqrt (max0 r) = Inr (sqrt (max0 r))"
  by (simp add: math_sqrt_def max0_def)

lemma circ_to_square_eq:
  "circ_to_square u v =
     Inr (0.5 * (sqrt (max0 (2 + 2 * u * sqrt 2 + u * u - v * v))
               - sqrt (max0 (2 - 2 * u * sqrt 2 + u * u - v * v))),
          0.5 * (sqrt (max0 (2 + 2 * v * sqrt 2 - u * u + v * v))
               - sqrt (max0 (2 - 2 * v * sqrt 2 - u * u + v * v))))"
  unfolding circ_to_square_def math_sqrt_max0 by (simp add: math_sqrt_def)

lemma sqrt_diff_le_2:
  fixes p q :: real
  assumes "p * p + q * q \<le> 1"
  shows "sqrt (max0 (2 + 2 * p * sqrt 2 + p * p - q * q))
         - sqrt (max0 (2 - 2 * p * sqrt 2 + p * p - q * q)) \<le> 2"
proof -
  define A where "A = 2 + 2 * p * sqrt 2 + p * p - q * q"
  define B where "B = 2 - 2 * p * sqrt 2 + p * p - q * q"
  have s2: "sqrt 2 * sqrt 2 = (2::real)" by simp
  have "(sqrt 2 * p - 1)\<^sup>2 = 2 * (p * p) - 2 * p * sqrt 2 + 1"
    using s2 by (simp add: power2_eq_square algebra_simps)
  then have lowB: "(sqrt 2 * p - 1)\<^sup>2 \<le> B"
    using assms by (simp add: B_def)
  have B0: "0 \<le> B"
    using lowB zero_le_power2 [of "sqrt 2 * p - 1"] by linarith
  have "(sqrt 2 * p + 1)\<^sup>2 = 2 * (p * p) + 2 * p * sqrt 2 + 1"
    using s2 by (simp add: power2_eq_square algebra_simps)
  then have lowA: "(sqrt 2 * p + 1)\<^sup>2 \<le> A"
    using assms by (simp add: A_def)
  have A0: "0 \<le> A"
    using lowA zero_le_power2 [of "sqrt 2 * p + 1"] by linarith
  have step: "sqrt 2 * p - 1 \<le> sqrt B"
    using lowB by (rule real_le_rsqrt)
  have "(2 + sqrt B)\<^sup>2 = 4 + 4 * sqrt B + B"
    using B0 by (simp add: power2_eq_square algebra_simps)
  moreover have "A = B + 4 * (sqrt 2 * p)"
    by (simp add: A_def B_def)
  ultimately have "A \<le> (2 + sqrt B)\<^sup>2"
    using step by linarith
  moreover have "0 \<le> 2 + sqrt B"
    using B0 by simp
  ultimately have "sqrt A \<le> 2 + sqrt B"
    by (simp add: real_le_lsqrt)
  moreover have "max0 A = A" "max0 B = B"
    using A0 B0 by (simp_all add: max0_def)
  ultimately have "sqrt (max0 A) - sqrt (max0 B) \<le> 2"
    by simp
  then show ?thesis
    unfolding A_def B_def .
qed

lemma sqrt_diff_ge_m2:
  fixes p q :: real
  assumes "p * p + q * q \<le> 1"
  shows "- 2 \<le> sqrt (max0 (2 + 2 * p * sqrt 2 + p * p - q * q))
         - sqrt (max0 (2 - 2 * p * sqrt 2 + p * p - q * q))"
  using sqrt_diff_le_2 [of "- p" q] assms by simp

lemma half_diff_bounds:
  fixes a b :: real
  shows "a - b \<le> 2 \<Longrightarrow> - 2 \<le> a - b \<Longrightarrow> - 1 \<le> 0.5 * (a - b) \<and> 0.5 * (a - b) \<le> 1"
  by simp

lemma circ_to_square_bounds:
  assumes disk: "u\<^sup>2 + v\<^sup>2 \<le> 1" and res: "circ_to_square u v = Inr (x, y)"
  shows "- 1 \<le> x \<and> x \<le> 1 \<and> - 1 \<le> y \<and> y \<le> 1"
proof -
  have uv: "u * u + v * v \<le> 1" and vu: "v * v + u * u \<le> 1"
    using disk by (simp_all add: power2_eq_square add.commute)
  have x: "x = 0.5 * (sqrt (max0 (2 + 2 * u * sqrt 2 + u * u - v * v))
             - sqrt (max0 (2 - 2 * u * sqrt 2 + u * u - v * v)))"
    using res unfolding circ_to_square_eq by simp
  have e1: "2 + 2 * v * sqrt 2 + v * v - u * u = 2 + 2 * v * sqrt 2 - u * u + v * v"
    and e2: "2 - 2 * v * sqrt 2 + v * v - u * u = 2 - 2 * v * sqrt 2 - u * u + v * v"
    by simp_all
  have y0: "y = 0.5 * (sqrt (max0 (2 + 2 * v * sqrt 2 - u * u + v * v))
             - sqrt (max0 (2 - 2 * v * sqrt 2 - u * u + v * v)))"
    using res unfolding circ_to_square_eq by simp
  have y: "y = 0.5 * (sqrt (max0 (2 + 2 * v * sqrt 2 + v * v - u * u))
             - sqrt (max0 (2 - 2 * v * sqrt 2 + v * v - u * u)))"
    unfolding e1 e2 by (rule y0)
  have "- 1 \<le> x \<and> x \<le> 1"
    unfolding x by (rule half_diff_bounds [OF sqrt_diff_le_2 [OF uv] sqrt_diff_ge_m2 [OF uv]])
  moreover have "- 1 \<le> y \<and> y \<le> 1"
    unfolding y by (rule half_diff_bounds [OF sqrt_diff_le_2 [OF vu] sqrt_diff_ge_m2 [OF vu]])
  ultimately show ?thesis by blast
qed

lemma circ_to_square_zero: "circ_to_square 0 0 = Inr (0, 0)"
  unfolding circ_to_square_eq by (simp add: max0_def)

text \<open>
  Claim C2. Over exact reals the mapper returns for every input (no radicand passed to
  \<open>math.sqrt\<close> is negative); for every point of the closed unit disk the result lies in
  the square \<open>[-1, 1] \<times> [-1, 1]\<close>; and the centre is mapped to the centre.
\<close>

theorem circ_to_square_in_square:
  "(\<exists>x y. circ_to_square u v = Inr (x, y) \<and>
      (u\<^sup>2 + v\<^sup>2 \<le> 1 \<longrightarrow> - 1 \<le> x \<and> x \<le> 1 \<and> - 1 \<le> y \<and> y \<le> 1))
   \<and> circ_to_square 0 0 = Inr (0, 0)"
proof -
  obtain x y where res: "circ_to_square u v = Inr (x, y)"
    unfolding circ_to_square_eq by blast
  then have "u\<^sup>2 + v\<^sup>2 \<le> 1 \<longrightarrow> - 1 \<le> x \<and> x \<le> 1 \<and> - 1 \<le> y \<and> y \<le> 1"
    using circ_to_square_bounds by blast
  with res show ?thesis
    using circ_to_square_zero by blast
qed

theorem circ_to_square_in_square_witness:
  "(1::real)\<^sup>2 + 0\<^sup>2 \<le> 1 \<and>
   (\<exists>x y. circ_to_square 1 0 = Inr (x, y) \<and> - 1 \<le> x \<and> x \<le> 1 \<and> - 1 \<le> y \<and> y \<le> 1)"
  using circ_to_square_in_square [of 1 0] by simp

text \<open>
  Claim C3. The mapper is odd: negating both inputs negates both outputs.
\<close>

theorem circ_to_square_odd:
  "\<exists>x y. circ_to_square u v = Inr (x, y) \<and> circ_to_square (- u) (- v) = Inr (- x, - y)"
proof -
  obtain x y where res: "circ_to_square u v = Inr (x, y)"
    unfolding circ_to_square_eq by blast
  have "circ_to_square (- u) (- v) = Inr (- x, - y)"
    using res unfolding circ_to_square_eq by simp
  with res show ?thesis
    by blast
qed

section \<open>Properties of the handlers\<close>

lemma circ_to_square_total: "\<exists>x y. circ_to_square p q = Inr (x, y)"
  unfolding circ_to_square_eq by blast

text \<open>
  Claim C1. With the fixed sign \<open>y_axis_direction = -1\<close>, the stick-X handler stores the
  value in \<open>u\<close> and sets angle and throttle from the mapper applied to the new \<open>u\<close> and
  the stored \<open>v\<close>, which it leaves as it is; the stick-Y handler does the same with the
  roles of \<open>u\<close> and \<open>v\<close> exchanged. Nothing else changes.
\<close>

theorem stick_handlers_recompute:
  assumes "y_axis_direction s = - 1"
  shows "(\<exists>x y. circ_to_square val (stick_v s) = Inr (x, y) \<and>
            update_stick_x_map (Some val) s =
              Inr (s\<lparr>stick_u := val, angle := x * angle_scale s,
                      throttle := y * throttle_scale s * (- 1)\<rparr>))
       \<and> (\<exists>x y. circ_to_square (stick_u s) val = Inr (x, y) \<and>
            update_stick_y_map (Some val) s =
              Inr (s\<lparr>stick_v := val, angle := x * angle_scale s,
                      throttle := y * throttle_scale s * (- 1)\<rparr>))"
proof -
  obtain x y where xy: "circ_to_square val (stick_v s) = Inr (x, y)"
    using circ_to_square_total by blast
  obtain x' y' where xy': "circ_to_square (stick_u s) val = Inr (x', y')"
    using circ_to_square_total by blast
  have "update_stick_x_map (Some val) s =
      Inr (s\<lparr>stick_u := val, angle := x * angle_scale s, throttle := y * throttle_scale s * (- 1)\<rparr>)"
    using xy assms by (simp add: update_stick_x_map_def)
  moreover have "update_stick_y_map (Some val) s =
      Inr (s\<lparr>stick_v := val, angle := x' * angle_scale s, throttle := y' * throttle_scale s * (- 1)\<rparr>)"
    using xy' assms by (simp add: update_stick_y_map_def)
  ultimately show ?thesis
    using xy xy' by blast
qed

lemma sqrt_3_plus: "sqrt (3 + 2 * sqrt 2) = sqrt 2 + 1"
proof -
  have "(sqrt 2 + 1)\<^sup>2 = 3 + 2 * sqrt 2"
    by (simp add: power2_sum)
  moreover have "sqrt ((sqrt 2 + 1)\<^sup>2) = sqrt 2 + 1"
    by (simp add: add_nonneg_nonneg)
  ultimately show ?thesis by simp
qed

lemma sqrt_3_minus: "sqrt (3 - 2 * sqrt 2) = sqrt 2 - 1"
proof -
  have "(sqrt 2 - 1)\<^sup>2 = 3 - 2 * sqrt 2"
    by (simp add: power2_diff)
  moreover have "sqrt ((sqrt 2 - 1)\<^sup>2) = sqrt 2 - 1"
    by simp
  ultimately show ?thesis by simp
qed

lemma circ_to_square_0_1: "circ_to_square 0 1 = Inr (0, 1)"
proof -
  have "(0::real) \<le> 3 - 2 * sqrt 2"
    using zero_le_power2 [of "sqrt 2 - 1"] by (simp add: power2_diff)
  then have "max0 (3 - 2 * sqrt 2) = 3 - 2 * sqrt 2"
    by (simp add: max0_def)
  moreover have "max0 (3 + 2 * sqrt 2) = 3 + 2 * sqrt 2"
    by (simp add: max0_def add_nonneg_nonneg)
  ultimately show ?thesis
    unfolding circ_to_square_eq by (simp add: sqrt_3_plus sqrt_3_minus)
qed

theorem stick_handlers_recompute_witness:
  "y_axis_direction (fresh_controller\<lparr>stick_v := 1\<rparr>) = - 1 \<and>
   update_stick_x_map (Some 0) (fresh_controller\<lparr>stick_v := 1\<rparr>) =
     Inr (fresh_controller\<lparr>stick_v := 1, stick_u := 0, angle := 0, throttle := - 1\<rparr>)"
proof -
  have y: "y_axis_direction (fresh_controller\<lparr>stick_v := 1\<rparr>) = - 1"
    by (simp add: fresh_controller_def)
  show ?thesis
    using y stick_handlers_recompute [OF y, of 0]
    by (simp add: circ_to_square_0_1 fresh_controller_def)
qed

text \<open>
  Claim C5. In every state whose drive mode is \<open>user\<close>, whatever the position of the
  autonomous cycle, a press of the autonomous-toggle button gives \<open>local_angle\<close>.
\<close>

theorem autonomous_from_user:
  assumes "drive_mode s = ''user''"
  shows "\<exists>s'. toggle_drive_mode_autonomous (Some 1) s = Inr s'
          \<and> drive_mode s' = ''local_angle'' \<and> drive_mode s' \<noteq> ''local''
          \<and> s' = s\<lparr>drive_mode_autonomous_toggle := Cycle [''local'', ''local_angle''],
                    drive_mode := ''local_angle''\<rparr>"
  using assms by (simp add: toggle_drive_mode_autonomous_def)

theorem autonomous_from_user_witness:
  "drive_mode (fresh_controller\<lparr>drive_mode_autonomous_toggle := Cycle [''local'', ''local_angle'']\<rparr>)
     = ''user''
   \<and> (\<exists>s'. toggle_drive_mode_autonomous (Some 1)
             (fresh_controller\<lparr>drive_mode_autonomous_toggle := Cycle [''local'', ''local_angle'']\<rparr>)
            = Inr s'
          \<and> drive_mode s' = ''local_angle'')"
proof -
  have u: "drive_mode (fresh_controller\<lparr>drive_mode_autonomous_toggle := Cycle [''local'', ''local_angle'']\<rparr>)
     = ''user''"
    by (simp add: fresh_controller_def)
  show ?thesis
    using u autonomous_from_user [OF u] by blast
qed


lemma toggle_from_user:
  "drive_mode s = ''user'' \<Longrightarrow>
   toggle_drive_mode_autonomous (Some 1) s =
     Inr (s\<lparr>drive_mode_autonomous_toggle := Cycle [''local'', ''local_angle''],
             drive_mode := ''local_angle''\<rparr>)"
  by (simp add: toggle_drive_mode_autonomous_def)

lemma toggle_from_local_angle:
  "drive_mode s = ''local_angle'' \<Longrightarrow>
   drive_mode_autonomous_toggle s = Cycle [''local'', ''local_angle''] \<Longrightarrow>
   toggle_drive_mode_autonomous (Some 1) s =
     Inr (s\<lparr>drive_mode_autonomous_toggle := Cycle [''local_angle'', ''local''],
             drive_mode := ''local''\<rparr>)"
  by (simp add: toggle_drive_mode_autonomous_def)

lemma toggle_from_local:
  "drive_mode s = ''local'' \<Longrightarrow>
   drive_mode_autonomous_toggle s = Cycle [''local_angle'', ''local''] \<Longrightarrow>
   toggle_drive_mode_autonomous (Some 1) s =
     Inr (s\<lparr>drive_mode_autonomous_toggle := Cycle [''local'', ''local_angle''],
             drive_mode := ''local_angle''\<rparr>)"
  by (simp add: toggle_drive_mode_autonomous_def)

lemma toggle_in_step:
  assumes "cycle_in_step s"
  shows "\<exists>s'. toggle_drive_mode_autonomous (Some 1) s = Inr s' \<and> cycle_in_step s'
           \<and> drive_mode s' \<noteq> drive_mode s
           \<and> drive_mode s' = (if drive_mode s = ''local_angle'' then ''local'' else ''local_angle'')"
  using assms toggle_from_user [of s] toggle_from_local_angle [of s] toggle_from_local [of s]
  unfolding cycle_in_step_def by (elim disjE conjE) (simp_all add: cycle_in_step_def)

lemma press_autonomous_in_step:
  "cycle_in_step s \<Longrightarrow>
   \<exists>s'. press_autonomous (Suc n) s = Inr s' \<and> cycle_in_step s'
     \<and> drive_mode s' =
         (if even n = (drive_mode s \<noteq> ''local_angle'') then ''local_angle'' else ''local'')"
proof (induction n arbitrary: s)
  case 0
  then show ?case
    using toggle_in_step [of s] by auto
next
  case (Suc n)
  obtain s1 where s1: "toggle_drive_mode_autonomous (Some 1) s = Inr s1" "cycle_in_step s1"
      "drive_mode s1 = (if drive_mode s = ''local_angle'' then ''local'' else ''local_angle'')"
    using toggle_in_step [OF Suc.prems] by blast
  obtain s' where s': "press_autonomous (Suc n) s1 = Inr s'" "cycle_in_step s'"
      "drive_mode s' =
         (if even n = (drive_mode s1 \<noteq> ''local_angle'') then ''local_angle'' else ''local'')"
    using Suc.IH [OF s1(2)] by blast
  have "press_autonomous (Suc (Suc n)) s = Inr s'"
    using s1(1) s'(1) by simp
  moreover have "drive_mode s' =
      (if even (Suc n) = (drive_mode s \<noteq> ''local_angle'') then ''local_angle'' else ''local'')"
    unfolding s'(3) s1(3) by simp
  ultimately show ?case
    using s'(2) by blast
qed

lemma edge_triggered_noop:
  "val \<noteq> Some 1 \<Longrightarrow>
   start_recording val s = Inr s \<and> stop_recording val s = Inr s
   \<and> set_drive_mode_manual val s = Inr s \<and> toggle_drive_mode_autonomous val s = Inr s
   \<and> increment_angle_scale val s = Inr s \<and> decrement_angle_scale val s = Inr s
   \<and> increment_throttle_scale val s = Inr s \<and> decrement_throttle_scale val s = Inr s"
  by (simp add: start_recording_def stop_recording_def set_drive_mode_manual_def
      toggle_drive_mode_autonomous_def increment_angle_scale_def decrement_angle_scale_def
      increment_throttle_scale_def decrement_throttle_scale_def)

lemma set_handlers_idempotent:
  "(\<exists>s1. start_recording (Some 1) s = Inr s1 \<and> start_recording (Some 1) s1 = Inr s1)
   \<and> (\<exists>s1. stop_recording (Some 1) s = Inr s1 \<and> stop_recording (Some 1) s1 = Inr s1)
   \<and> (\<exists>s1. set_drive_mode_manual (Some 1) s = Inr s1 \<and> set_drive_mode_manual (Some 1) s1 = Inr s1)"
  by (simp add: start_recording_def stop_recording_def set_drive_mode_manual_def)

text \<open>
  Claim C4. The start-recording, stop-recording and set-manual handlers are idempotent on
  a press; a value other than 1 leaves the whole state as it is; a press of the
  autonomous-toggle button changes the drive mode, to \<open>local\<close> from \<open>local_angle\<close> and to
  \<open>local_angle\<close> otherwise; and from \<open>user\<close> the presses give \<open>local_angle\<close>, \<open>local\<close>,
  \<open>local_angle\<close>, and so on.
\<close>

theorem edge_triggering:
  "(\<exists>s1. start_recording (Some 1) s = Inr s1 \<and> start_recording (Some 1) s1 = Inr s1)
   \<and> (\<exists>s1. stop_recording (Some 1) s = Inr s1 \<and> stop_recording (Some 1) s1 = Inr s1)
   \<and> (\<exists>s1. set_drive_mode_manual (Some 1) s = Inr s1 \<and> set_drive_mode_manual (Some 1) s1 = Inr s1)
   \<and> (val \<noteq> Some 1 \<longrightarrow>
        start_recording val s = Inr s \<and> stop_recording val s = Inr s
        \<and> set_drive_mode_manual val s = Inr s \<and> toggle_drive_mode_autonomous val s = Inr s)
   \<and> (cycle_in_step s \<longrightarrow>
        (\<exists>s'. toggle_drive_mode_autonomous (Some 1) s = Inr s' \<and> cycle_in_step s'
           \<and> drive_mode s' \<noteq> drive_mode s
           \<and> drive_mode s' = (if drive_mode s = ''local_angle'' then ''local'' else ''local_angle'')))
   \<and> (drive_mode s = ''user'' \<longrightarrow>
        (\<exists>s'. press_autonomous (Suc n) s = Inr s'
           \<and> drive_mode s' = (if even n then ''local_angle'' else ''local'')))"
proof -
  have "\<exists>s'. press_autonomous (Suc n) s = Inr s'
           \<and> drive_mode s' = (if even n then ''local_angle'' else ''local'')"
    if "drive_mode s = ''user''"
    using that press_autonomous_in_step [of s n] by (auto simp add: cycle_in_step_def)
  then show ?thesis
    using set_handlers_idempotent [of s] edge_triggered_noop [of val s] toggle_in_step [of s]
    by blast
qed

theorem edge_triggering_witness:
  "(\<exists>s1. start_recording (Some 1) fresh_controller = Inr s1 \<and> start_recording (Some 1) s1 = Inr s1)
   \<and> Some 0 \<noteq> Some (1::real)
   \<and> stop_recording (Some 0) fresh_controller = Inr fresh_controller
   \<and> set_drive_mode_manual (Some 0) fresh_controller = Inr fresh_controller
   \<and> toggle_drive_mode_autonomous (Some 0) fresh_controller = Inr fresh_controller
   \<and> cycle_in_step fresh_controller
   \<and> drive_mode fresh_controller = ''user''
   \<and> (\<exists>s'. toggle_drive_mode_autonomous (Some 1) fresh_controller = Inr s'
         \<and> drive_mode s' = ''local_angle'')
   \<and> (\<exists>s'. press_autonomous 3 fresh_controller = Inr s' \<and> drive_mode s' = ''local_angle'')
   \<and> (\<exists>s'. press_autonomous 2 fresh_controller = Inr s' \<and> drive_mode s' = ''local'')"
proof -
  have u: "drive_mode fresh_controller = ''user''"
    by (simp add: fresh_controller_def)
  then have c: "cycle_in_step fresh_controller"
    by (simp add: cycle_in_step_def)
  have n: "Some 0 \<noteq> Some (1::real)"
    by simp
  have three: "Suc 2 = 3" and two: "Suc 1 = 2"
    by simp_all
  show ?thesis
    using u c n edge_triggering [of fresh_controller "Some 0" 2]
      edge_triggering [of fresh_controller "Some 0" 1]
    unfolding three two by auto
qed

text \<open>The cycle stays in step with the drive mode.\<close>

lemma func_map_cases:
  assumes "func_map b = Some f"
  shows "f \<in> {update_stick_x_map, update_stick_y_map, start_recording, stop_recording,
     set_drive_mode_manual, toggle_drive_mode_autonomous, increment_angle_scale,
     decrement_angle_scale, increment_throttle_scale, decrement_throttle_scale}"
  using assms by (auto simp add: func_map_def split: if_splits)

section \<open>Frame properties and construction\<close>

lemma handler_frame:
  assumes "func_map b = Some f" and "f val s = Inr s'"
  shows "state s' = state s \<and> device s' = device s
     \<and> y_axis_direction s' = y_axis_direction s
     \<and> btn_map s' = btn_map s \<and> joystick_max_value s' = joystick_max_value s
     \<and> device_search_term s' = device_search_term s"
proof -
  have "f \<in> {update_stick_x_map, update_stick_y_map, start_recording, stop_recording,
     set_drive_mode_manual, toggle_drive_mode_autonomous, increment_angle_scale,
     decrement_angle_scale, increment_throttle_scale, decrement_throttle_scale}"
    using assms(1) by (rule func_map_cases)
  then show ?thesis
    using assms(2)
    by (auto simp add: update_stick_x_map_def update_stick_y_map_def circ_to_square_eq
        start_recording_def stop_recording_def set_drive_mode_manual_def
        toggle_drive_mode_autonomous_def increment_angle_scale_def decrement_angle_scale_def
        increment_throttle_scale_def decrement_throttle_scale_def Let_def
        split: if_splits option.splits sum.splits prod.splits)
qed

lemma handler_in_step:
  assumes "func_map b = Some f" and "f val s = Inr s'" and "cycle_in_step s"
  shows "cycle_in_step s'"
proof -
  have f: "f \<in> {update_stick_x_map, update_stick_y_map, start_recording, stop_recording,
     set_drive_mode_manual, toggle_drive_mode_autonomous, increment_angle_scale,
     decrement_angle_scale, increment_throttle_scale, decrement_throttle_scale}"
    using assms(1) by (rule func_map_cases)
  show ?thesis
  proof (cases "f = toggle_drive_mode_autonomous")
    case True
    show ?thesis
    proof (cases "val = Some 1")
      case True
      with \<open>f = toggle_drive_mode_autonomous\<close> assms(2) toggle_in_step [OF assms(3)]
      show ?thesis by auto
    next
      case False
      with \<open>f = toggle_drive_mode_autonomous\<close> assms(2) assms(3) edge_triggered_noop [of val s]
      show ?thesis by auto
    qed
  next
    case False
    with f assms(2) assms(3) show ?thesis
      by (auto simp add: update_stick_x_map_def update_stick_y_map_def circ_to_square_eq
        start_recording_def stop_recording_def set_drive_mode_manual_def
        increment_angle_scale_def decrement_angle_scale_def
        increment_throttle_scale_def decrement_throttle_scale_def Let_def cycle_in_step_def
        split: if_splits option.splits sum.splits prod.splits)
  qed
qed

lemma load_device_frame:
  "load_device t env s = Some (Inr s1) \<Longrightarrow> s1 = s\<lparr>device := device s1\<rparr>"
  by (auto simp add: load_device_def split: option.splits sum.splits prod.splits)

lemma read_loop_frame:
  "read_loop rd env s = Some (Inr (bv, s1)) \<Longrightarrow> s1 = s\<lparr>device := device s1\<rparr>"
  by (cases rd)
    (auto simp add: read_loop_def Let_def dest: load_device_frame
      split: if_splits option.splits sum.splits prod.splits)

lemma update_in_step:
  assumes "update_state_from_loop rd env s = Some (Inr s')" and "cycle_in_step s"
  shows "cycle_in_step s'"
proof -
  obtain btn val s1 where r: "read_loop rd env s = Some (Inr ((btn, val), s1))"
    using assms(1)
    by (auto simp add: update_state_from_loop_def split: option.splits sum.splits prod.splits)
  have "s1 = s\<lparr>device := device s1\<rparr>"
    using r by (rule read_loop_frame)
  then have "drive_mode s1 = drive_mode s"
      "drive_mode_autonomous_toggle s1 = drive_mode_autonomous_toggle s"
    by (metis controller.select_convs controller.surjective controller.update_convs(1))+
  then have c: "cycle_in_step (s1\<lparr>state := (state s1)(btn \<mapsto> val)\<rparr>)"
    using assms(2) by (simp add: cycle_in_step_def)
  show ?thesis
  proof (cases "func_map_get btn")
    case None
    then show ?thesis
      using assms(1) r c by (simp add: update_state_from_loop_def)
  next
    case (Some f)
    then obtain b where "func_map b = Some f"
      by (auto simp add: func_map_get_def split: option.splits)
    moreover have "f val (s1\<lparr>state := (state s1)(btn \<mapsto> val)\<rparr>) = Inr s'"
      using assms(1) r Some by (simp add: update_state_from_loop_def)
    ultimately show ?thesis
      using c handler_in_step by blast
  qed
qed

lemma init_cases:
  assumes "init dev cfg search vb env = Some (Inr c)"
  shows "\<exists>d t. c = \<lparr>device = d, verbose = vb, running = False,
      state = Map.empty, angle = 0, throttle = 0, stick_u = 0, stick_v = 0,
      angle_scale = 1, angle_scale_increment = 0.05,
      throttle_scale = 1, throttle_scale_increment = 0.05,
      y_axis_direction = - 1,
      drive_mode_toggle = Cycle [''local_angle'', ''local'', ''user''],
      drive_mode_autonomous_toggle = Cycle [''local_angle'', ''local''],
      drive_mode = ''user'',
      recording_toggle = Cycle [False, True], recording = True,
      btn_map = cfg_button_map cfg,
      joystick_max_value = (case cfg_joystick_max_value cfg of None \<Rightarrow> 1280 | Some m \<Rightarrow> m),
      device_search_term = t\<rparr>"
proof (cases dev)
  case None
  then show ?thesis
    using assms
    by (auto simp add: init_def Let_def load_device_def
        split: option.splits sum.splits prod.splits)
next
  case (Some d)
  then show ?thesis
    using assms by (auto simp add: init_def Let_def)
qed

text \<open>
  Claim C8. Whenever construction completes, angle and throttle are 0, both scales are 1,
  the stored stick values are 0, the drive mode is \<open>user\<close> and recording is on; and
  construction completes whenever an input device is passed in.
\<close>

theorem initial_state:
  "(init dev cfg search vb env = Some (Inr c) \<longrightarrow>
      angle c = 0 \<and> throttle c = 0 \<and> angle_scale c = 1 \<and> throttle_scale c = 1
      \<and> stick_u c = 0 \<and> stick_v c = 0 \<and> drive_mode c = ''user'' \<and> recording c = True)
   \<and> (\<exists>c'. init (Some d) cfg search vb env = Some (Inr c'))"
proof -
  have "angle c = 0 \<and> throttle c = 0 \<and> angle_scale c = 1 \<and> throttle_scale c = 1
      \<and> stick_u c = 0 \<and> stick_v c = 0 \<and> drive_mode c = ''user'' \<and> recording c = True"
    if "init dev cfg search vb env = Some (Inr c)"
    using init_cases [OF that] by auto
  moreover have "\<exists>c'. init (Some d) cfg search vb env = Some (Inr c')"
    by (simp add: init_def Let_def)
  ultimately show ?thesis
    by blast
qed

lemma init_fresh:
  "init (Some wiiu_device) wiiu_config None False env = Some (Inr fresh_controller)"
  by (simp add: init_def Let_def fresh_controller_def wiiu_config_def)

theorem initial_state_witness:
  "init (Some wiiu_device) wiiu_config None False reappearing = Some (Inr fresh_controller)
   \<and> angle fresh_controller = 0 \<and> throttle fresh_controller = 0
   \<and> angle_scale fresh_controller = 1 \<and> throttle_scale fresh_controller = 1
   \<and> stick_u fresh_controller = 0 \<and> stick_v fresh_controller = 0
   \<and> drive_mode fresh_controller = ''user'' \<and> recording fresh_controller = True"
  using init_fresh [of reappearing]
    initial_state [of "Some wiiu_device" wiiu_config None False reappearing fresh_controller]
  by simp

lemma init_in_step:
  "init dev cfg search vb env = Some (Inr c) \<Longrightarrow> cycle_in_step c \<and> y_axis_direction c = - 1"
  using init_cases [of dev cfg search vb env c] by (auto simp add: cycle_in_step_def)

section \<open>Device lookup\<close>

lemma str_in_iff: "str_in a b \<longleftrightarrow> (\<exists>p q. b = p @ a @ q)"
proof (induction b)
  case Nil
  then show ?case by auto
next
  case (Cons c cs)
  show ?case
  proof
    assume "str_in a (c # cs)"
    then consider "take (length a) (c # cs) = a" | "str_in a cs"
      by auto
    then show "\<exists>p q. c # cs = p @ a @ q"
    proof cases
      case 1
      then have "c # cs = [] @ a @ drop (length a) (c # cs)"
        by (metis append_Nil append_take_drop_id)
      then show ?thesis by blast
    next
      case 2
      then obtain p q where "cs = p @ a @ q"
        using Cons.IH by blast
      then have "c # cs = (c # p) @ a @ q"
        by simp
      then show ?thesis by blast
    qed
  next
    assume "\<exists>p q. c # cs = p @ a @ q"
    then obtain p q where pq: "c # cs = p @ a @ q"
      by blast
    show "str_in a (c # cs)"
    proof (cases p)
      case Nil
      then have "take (length a) (c # cs) = a"
        using pq by simp
      then show ?thesis by simp
    next
      case (Cons x xs)
      then have "cs = xs @ a @ q"
        using pq by simp
      then show ?thesis
        using Cons.IH by auto
    qed
  qed
qed


lemma find_input_device_Str:
  "find_input_device (Str t) devs =
     (case likely_devices t devs of
        [] \<Rightarrow> Inr None
      | [d] \<Rightarrow> Inr (Some d)
      | d # e # rest \<Rightarrow> Inl ValueError)"
  by (simp add: find_input_device_def split: list.splits)

lemma load_device_loop_skip:
  "(\<forall>i<n. find_input_device t (env (k + i)) = Inr None) \<Longrightarrow>
   load_device_loop t env k slept = load_device_loop t env (k + n) (slept + 3 * n)"
proof (induction n)
  case 0
  then show ?case by simp
next
  case (Suc n)
  then have "find_input_device t (env (k + n)) = Inr None"
    by simp
  then have "load_device_loop t env (k + n) (slept + 3 * n)
      = load_device_loop t env (Suc (k + n)) (slept + 3 * n + 3)"
    by (subst load_device_loop.simps) simp
  then show ?case
    using Suc by (simp add: add.commute add.left_commute)
qed

lemma load_device_loop_stops:
  assumes "\<forall>i<n. find_input_device t (env (k + i)) = Inr None"
  shows "load_device_loop t env k slept =
     (case find_input_device t (env (k + n)) of
        Inl e \<Rightarrow> Some (Inl e)
      | Inr None \<Rightarrow> load_device_loop t env (Suc (k + n)) (slept + 3 * n + 3)
      | Inr (Some dev) \<Rightarrow> Some (Inr (dev, slept + 3 * n)))"
  unfolding load_device_loop_skip [OF assms, of slept]
  by (subst load_device_loop.simps) simp

lemma load_device_loop_returns:
  assumes "load_device_loop t env k slept = Some r"
  shows "\<exists>n. (\<forall>i<n. find_input_device t (env (k + i)) = Inr None)
     \<and> find_input_device t (env (k + n)) \<noteq> Inr None"
proof (rule load_device_loop.raw_induct
    [where P = "\<lambda>t env k slept r. \<exists>n. (\<forall>i<n. find_input_device t (env (k + i)) = Inr None)
       \<and> find_input_device t (env (k + n)) \<noteq> Inr None", OF _ assms])
  fix loop :: "search_term \<Rightarrow> (nat \<Rightarrow> input_device list) \<Rightarrow> nat \<Rightarrow> nat
      \<Rightarrow> (error + input_device \<times> nat) option"
  fix t env k slept r
  assume IH: "\<And>t env k slept r. loop t env k slept = Some r \<Longrightarrow>
      \<exists>n. (\<forall>i<n. find_input_device t (env (k + i)) = Inr None)
        \<and> find_input_device t (env (k + n)) \<noteq> Inr None"
  assume body: "(case find_input_device t (env k) of
        Inl e \<Rightarrow> Some (Inl e)
      | Inr None \<Rightarrow> loop t env (Suc k) (slept + 3)
      | Inr (Some dev) \<Rightarrow> Some (Inr (dev, slept))) = Some r"
  show "\<exists>n. (\<forall>i<n. find_input_device t (env (k + i)) = Inr None)
     \<and> find_input_device t (env (k + n)) \<noteq> Inr None"
  proof (cases "find_input_device t (env k) = Inr None")
    case True
    then have "loop t env (Suc k) (slept + 3) = Some r"
      using body by simp
    then obtain n where n: "\<forall>i<n. find_input_device t (env (Suc k + i)) = Inr None"
        "find_input_device t (env (Suc k + n)) \<noteq> Inr None"
      using IH by blast
    have "\<forall>i<Suc n. find_input_device t (env (k + i)) = Inr None"
    proof (intro allI impI)
      fix i assume "i < Suc n"
      then show "find_input_device t (env (k + i)) = Inr None"
        using True n(1) by (cases i) simp_all
    qed
    moreover have "find_input_device t (env (k + Suc n)) \<noteq> Inr None"
      using n(2) by simp
    ultimately show ?thesis
      by blast
  next
    case False
    then have "(\<forall>i<0. find_input_device t (env (k + i)) = Inr None)
        \<and> find_input_device t (env (k + 0)) \<noteq> Inr None"
      by simp
    then show ?thesis
      by blast
  qed
qed

lemma load_device_loop_diverges:
  assumes "\<forall>i. find_input_device t (env i) = Inr None"
  shows "load_device_loop t env k slept = None"
proof (cases "load_device_loop t env k slept")
  case None
  then show ?thesis .
next
  case (Some r)
  then show ?thesis
    using load_device_loop_returns [OF Some] assms by blast
qed

lemma find_none_iff:
  "find_input_device (Str t) devs = Inr None \<longleftrightarrow> likely_devices t devs = []"
  by (simp add: find_input_device_Str split: list.splits)

lemma find_lookup:
  "(2 \<le> length (likely_devices t devs) \<longrightarrow> find_input_device (Str t) devs = Inl ValueError)
   \<and> (likely_devices t devs = [] \<longrightarrow> find_input_device (Str t) devs = Inr None)
   \<and> (likely_devices t devs = [d] \<longrightarrow> find_input_device (Str t) devs = Inr (Some d))"
  by (simp add: find_input_device_def)

lemma likely_devices_substring:
  "d \<in> set (likely_devices t devs) \<longleftrightarrow>
     d \<in> set devs \<and> (\<exists>p q. lower (name d) = p @ lower t @ q)"
  by (simp add: likely_devices_def str_in_iff)

lemma load_device_loop_found:
  assumes "\<forall>i<n. likely_devices t (env i) = []" and "likely_devices t (env n) = [d]"
  shows "load_device_loop (Str t) env 0 0 = Some (Inr (d, 3 * n))"
proof -
  have "\<forall>i<n. find_input_device (Str t) (env (0 + i)) = Inr None"
    using assms(1) by (simp add: find_none_iff)
  then show ?thesis
    using load_device_loop_stops [of n "Str t" env 0 0] assms(2) find_lookup [of t "env n" d]
    by simp
qed

lemma load_device_loop_ambiguous:
  assumes "\<forall>i<n. likely_devices t (env i) = []" and "2 \<le> length (likely_devices t (env n))"
  shows "load_device_loop (Str t) env 0 0 = Some (Inl ValueError)"
proof -
  have "\<forall>i<n. find_input_device (Str t) (env (0 + i)) = Inr None"
    using assms(1) by (simp add: find_none_iff)
  then show ?thesis
    using load_device_loop_stops [of n "Str t" env 0 0] assms(2) find_lookup [of t "env n"]
    by simp
qed

lemma load_device_loop_only_when:
  assumes "load_device_loop (Str t) env 0 slept = Some (Inr (d, w))"
  shows "\<exists>n. (\<forall>i<n. likely_devices t (env i) = []) \<and> likely_devices t (env n) = [d]"
proof -
  obtain n where n: "\<forall>i<n. find_input_device (Str t) (env (0 + i)) = Inr None"
      "find_input_device (Str t) (env (0 + n)) \<noteq> Inr None"
    using load_device_loop_returns [OF assms] by blast
  have "find_input_device (Str t) (env n) = Inr (Some d)"
    using load_device_loop_stops [OF n(1), of slept] assms n(2)
    by (auto split: sum.splits option.splits)
  then have "likely_devices t (env n) = [d]"
    by (auto simp add: find_input_device_Str split: list.splits)
  moreover have "\<forall>i<n. likely_devices t (env i) = []"
    using n(1) by (simp add: find_none_iff)
  ultimately show ?thesis
    by blast
qed

text \<open>
  Claim C7. A device is a likely device when its name contains the search term, both in
  lower case. Two or more likely devices make the lookup raise \<open>ValueError\<close>, which
  \<open>load_device\<close> and the constructor pass on; none makes it return \<open>None\<close>, and
  \<open>load_device\<close> then sleeps three seconds and looks again, for ever if no device ever
  matches; \<open>load_device\<close> stores a device and returns exactly when, after lookups that
  find none, a lookup finds exactly one.
\<close>

theorem device_lookup:
  "(d \<in> set (likely_devices t devs) \<longleftrightarrow>
      d \<in> set devs \<and> (\<exists>p q. lower (name d) = p @ lower t @ q))
   \<and> (2 \<le> length (likely_devices t devs) \<longrightarrow> find_input_device (Str t) devs = Inl ValueError)
   \<and> (likely_devices t devs = [] \<longrightarrow> find_input_device (Str t) devs = Inr None)
   \<and> (likely_devices t devs = [d] \<longrightarrow> find_input_device (Str t) devs = Inr (Some d))
   \<and> ((\<forall>i<n. likely_devices t (env i) = []) \<and> 2 \<le> length (likely_devices t (env n)) \<longrightarrow>
        load_device (Str t) env s = Some (Inl ValueError)
        \<and> (t \<noteq> [] \<longrightarrow> init None cfg (Some t) vb env = Some (Inl ValueError)))
   \<and> ((\<forall>i. likely_devices t (env i) = []) \<longrightarrow>
        load_device_loop (Str t) env 0 0 = None \<and> load_device (Str t) env s = None)
   \<and> ((\<forall>i<n. likely_devices t (env i) = []) \<and> likely_devices t (env n) = [d] \<longrightarrow>
        load_device_loop (Str t) env 0 0 = Some (Inr (d, 3 * n))
        \<and> load_device (Str t) env s = Some (Inr (s\<lparr>device := Some d\<rparr>)))
   \<and> (load_device (Str t) env s = Some (Inr s') \<longrightarrow>
        (\<exists>m e. (\<forall>i<m. likely_devices t (env i) = []) \<and> likely_devices t (env m) = [e]
           \<and> s' = s\<lparr>device := Some e\<rparr>))"
proof -
  have amb: "load_device (Str t) env s = Some (Inl ValueError)
        \<and> (t \<noteq> [] \<longrightarrow> init None cfg (Some t) vb env = Some (Inl ValueError))"
    if "\<forall>i<n. likely_devices t (env i) = []" and "2 \<le> length (likely_devices t (env n))"
    using load_device_loop_ambiguous [OF that]
    by (simp add: load_device_def init_def Let_def)
  have never: "load_device_loop (Str t) env 0 0 = None \<and> load_device (Str t) env s = None"
    if "\<forall>i. likely_devices t (env i) = []"
  proof -
    have "\<forall>i. find_input_device (Str t) (env i) = Inr None"
      using that by (simp add: find_none_iff)
    then show ?thesis
      using load_device_loop_diverges [of "Str t" env 0 0] by (simp add: load_device_def)
  qed
  have found: "load_device_loop (Str t) env 0 0 = Some (Inr (d, 3 * n))
        \<and> load_device (Str t) env s = Some (Inr (s\<lparr>device := Some d\<rparr>))"
    if "\<forall>i<n. likely_devices t (env i) = []" and "likely_devices t (env n) = [d]"
    using load_device_loop_found [OF that] by (simp add: load_device_def)
  have only: "\<exists>m e. (\<forall>i<m. likely_devices t (env i) = []) \<and> likely_devices t (env m) = [e]
           \<and> s' = s\<lparr>device := Some e\<rparr>"
    if "load_device (Str t) env s = Some (Inr s')"
  proof -
    have "\<exists>e w. load_device_loop (Str t) env 0 0 = Some (Inr (e, w))
        \<and> s' = s\<lparr>device := Some e\<rparr>"
    proof (cases "load_device_loop (Str t) env 0 0")
      case None
      then show ?thesis
        using that by (simp add: load_device_def)
    next
      case (Some r)
      then show ?thesis
        using that by (cases r) (auto simp add: load_device_def)
    qed
    then obtain e w where e: "load_device_loop (Str t) env 0 0 = Some (Inr (e, w))"
        and s': "s' = s\<lparr>device := Some e\<rparr>"
      by blast
    then show ?thesis
      using load_device_loop_only_when [OF e] by blast
  qed
  show ?thesis
    using likely_devices_substring [of d t devs] find_lookup [of t devs d] amb never found only
    by blast
qed

lemma likely_nintendo_keyboard: "likely_devices ''nintendo'' [keyboard_device] = []"
  by code_simp

lemma likely_nintendo_both:
  "likely_devices ''nintendo'' [keyboard_device, wiiu_device] = [wiiu_device]"
  by code_simp

lemma likely_T_both:
  "likely_devices ''T'' [keyboard_device, wiiu_device] = [keyboard_device, wiiu_device]"
  by code_simp

lemma likely_T_keyboard:
  "likely_devices ''T'' [keyboard_device] = [keyboard_device]"
  by code_simp

lemma reappearing_nintendo:
  "(\<forall>i<2. likely_devices ''nintendo'' (reappearing i) = [])
   \<and> likely_devices ''nintendo'' (reappearing 2) = [wiiu_device]"
  by (simp add: reappearing_def likely_nintendo_keyboard likely_nintendo_both)

theorem device_lookup_witness:
  "find_input_device (Str ''T'') [keyboard_device, wiiu_device] = Inl ValueError
   \<and> find_input_device (Str ''nintendo'') [keyboard_device] = Inr None
   \<and> find_input_device (Str ''nintendo'') [keyboard_device, wiiu_device] = Inr (Some wiiu_device)
   \<and> load_device (Str ''T'') ambiguous fresh_controller = Some (Inl ValueError)
   \<and> init None wiiu_config (Some ''T'') False ambiguous = Some (Inl ValueError)
   \<and> load_device (Str ''nintendo'') no_match fresh_controller = None
   \<and> load_device_loop (Str ''nintendo'') reappearing 0 0 = Some (Inr (wiiu_device, 6))
   \<and> load_device (Str ''nintendo'') reappearing fresh_controller
       = Some (Inr (fresh_controller\<lparr>device := Some wiiu_device\<rparr>))"
proof -
  have amb: "(\<forall>i<0. likely_devices ''T'' (ambiguous i) = [])
      \<and> 2 \<le> length (likely_devices ''T'' (ambiguous 0))"
    by (simp add: ambiguous_def likely_T_both)
  have two: "2 \<le> length (likely_devices ''T'' [keyboard_device, wiiu_device])"
    by (simp add: likely_T_both)
  have none: "\<forall>i. likely_devices ''nintendo'' (no_match i) = []"
    by (simp add: no_match_def likely_nintendo_keyboard)
  have t: "''T'' \<noteq> []"
    by simp
  have kb: "likely_devices ''nintendo'' [keyboard_device] = []"
    by (rule likely_nintendo_keyboard)
  have both: "likely_devices ''nintendo'' [keyboard_device, wiiu_device] = [wiiu_device]"
    by (rule likely_nintendo_both)
  have c1: "find_input_device (Str ''T'') [keyboard_device, wiiu_device] = Inl ValueError"
    using two device_lookup [of wiiu_device "''T''" "[keyboard_device, wiiu_device]" 0 ambiguous
        fresh_controller wiiu_config False fresh_controller]
    by blast
  have c2: "find_input_device (Str ''nintendo'') [keyboard_device] = Inr None"
    using kb device_lookup [of wiiu_device "''nintendo''" "[keyboard_device]" 0 ambiguous
        fresh_controller wiiu_config False fresh_controller]
    by blast
  have c3: "find_input_device (Str ''nintendo'') [keyboard_device, wiiu_device]
      = Inr (Some wiiu_device)"
    using both device_lookup [of wiiu_device "''nintendo''" "[keyboard_device, wiiu_device]" 0
        ambiguous fresh_controller wiiu_config False fresh_controller]
    by blast
  have c4: "load_device (Str ''T'') ambiguous fresh_controller = Some (Inl ValueError)
      \<and> init None wiiu_config (Some ''T'') False ambiguous = Some (Inl ValueError)"
    using amb t device_lookup [of wiiu_device "''T''" "[]" 0 ambiguous
        fresh_controller wiiu_config False fresh_controller]
    by blast
  have c5: "load_device (Str ''nintendo'') no_match fresh_controller = None"
    using none device_lookup [of wiiu_device "''nintendo''" "[]" 0 no_match
        fresh_controller wiiu_config False fresh_controller]
    by blast
  have c6: "load_device_loop (Str ''nintendo'') reappearing 0 0 = Some (Inr (wiiu_device, 3 * 2))
      \<and> load_device (Str ''nintendo'') reappearing fresh_controller
          = Some (Inr (fresh_controller\<lparr>device := Some wiiu_device\<rparr>))"
    using reappearing_nintendo device_lookup [of wiiu_device "''nintendo''" "[]" 2 reappearing
        fresh_controller wiiu_config False fresh_controller]
    by blast
  show ?thesis
    using c1 c2 c3 c4 c5 c6 by simp
qed

section \<open>Reading, reconnection and the last-seen map\<close>

lemma func_map_get_None: "func_map_get None = None"
  by (simp add: func_map_get_def)

lemma read_loop_OSError:
  "read_loop OSError env s =
     (case load_device (device_search_term s) env s of
        None \<Rightarrow> None
      | Some (Inl e) \<Rightarrow> Some (Inl e)
      | Some (Inr s1) \<Rightarrow> Some (Inr ((None, None), s1)))"
  by (simp add: read_loop_def)

lemma read_loop_Event:
  "read_loop (Event e) env s =
     (if ev_type e = EV_ABS \<and> joystick_max_value s = 0 then Some (Inl ZeroDivisionError)
      else Some (Inr ((btn_map s (ev_code e),
             Some (if ev_type e = EV_ABS then real_of_int (ev_value e) / joystick_max_value s
                   else real_of_int (ev_value e))), s)))"
  by (simp add: read_loop_def Let_def)

lemma update_no_handler:
  "read_loop rd env s = Some (Inr ((None, val), s1)) \<Longrightarrow>
   update_state_from_loop rd env s = Some (Inr (s1\<lparr>state := (state s1)(None \<mapsto> val)\<rparr>))"
  by (simp add: update_state_from_loop_def func_map_get_None)

lemma reconnect_step:
  assumes "device_search_term s = Str t"
    and "\<forall>i<n. likely_devices t (env i) = []"
    and "likely_devices t (env n) = [d]"
  shows "read_loop OSError env s = Some (Inr ((None, None), s\<lparr>device := Some d\<rparr>))"
    and "update_state_from_loop OSError env s
      = Some (Inr (s\<lparr>device := Some d, state := (state s)(None \<mapsto> None)\<rparr>))"
proof -
  have "load_device (Str t) env s = Some (Inr (s\<lparr>device := Some d\<rparr>))"
    using load_device_loop_found [OF assms(2) assms(3)] by (simp add: load_device_def)
  then show r: "read_loop OSError env s = Some (Inr ((None, None), s\<lparr>device := Some d\<rparr>))"
    using assms(1) by (simp add: read_loop_OSError)
  show "update_state_from_loop OSError env s
      = Some (Inr (s\<lparr>device := Some d, state := (state s)(None \<mapsto> None)\<rparr>))"
    using update_no_handler [OF r] by simp
qed

text \<open>
  Claim C6. When the read raises \<open>OSError\<close> and the device comes back (lookups that find
  nothing, then one that finds exactly one device), \<open>read_loop\<close> returns
  \<open>(None, None)\<close> and the update step changes nothing but the device handle and the
  entry of the last-seen map under \<open>None\<close>: scales, drive mode, recording flag, angle,
  throttle and the stored stick values are as before.
\<close>

theorem reconnection_preserves_state:
  assumes "device_search_term s = Str t"
    and "\<forall>i<n. likely_devices t (env i) = []"
    and "likely_devices t (env n) = [d]"
  shows "read_loop OSError env s = Some (Inr ((None, None), s\<lparr>device := Some d\<rparr>))
     \<and> (\<exists>s'. update_state_from_loop OSError env s = Some (Inr s')
           \<and> s' = s\<lparr>device := Some d, state := (state s)(None \<mapsto> None)\<rparr>
           \<and> angle_scale s' = angle_scale s \<and> throttle_scale s' = throttle_scale s
           \<and> drive_mode s' = drive_mode s \<and> recording s' = recording s
           \<and> angle s' = angle s \<and> throttle s' = throttle s
           \<and> stick_u s' = stick_u s \<and> stick_v s' = stick_v s
           \<and> run OSError env s
               = Some (Inr ((angle s, throttle s, drive_mode s, recording s), s')))"
  using reconnect_step [OF assms] by (simp add: run_def run_threaded_def)

theorem reconnection_preserves_state_witness:
  "device_search_term fresh_controller = Str ''nintendo''
   \<and> likely_devices ''nintendo'' (reappearing 0) = []
   \<and> likely_devices ''nintendo'' (reappearing 1) = []
   \<and> likely_devices ''nintendo'' (reappearing 2) = [wiiu_device]
   \<and> read_loop OSError reappearing fresh_controller
       = Some (Inr ((None, None), fresh_controller\<lparr>device := Some wiiu_device\<rparr>))
   \<and> update_state_from_loop OSError reappearing fresh_controller
       = Some (Inr (fresh_controller\<lparr>device := Some wiiu_device, state := [None \<mapsto> None]\<rparr>))
   \<and> run OSError reappearing fresh_controller
       = Some (Inr ((0, 0, ''user'', True),
            fresh_controller\<lparr>device := Some wiiu_device, state := [None \<mapsto> None]\<rparr>))"
proof -
  have t: "device_search_term fresh_controller = Str ''nintendo''"
    by (simp add: fresh_controller_def)
  have e: "\<forall>i<2. likely_devices ''nintendo'' (reappearing i) = []"
    and o: "likely_devices ''nintendo'' (reappearing 2) = [wiiu_device]"
    using reappearing_nintendo by blast+
  have f: "state fresh_controller = Map.empty" "angle fresh_controller = 0"
      "throttle fresh_controller = 0" "drive_mode fresh_controller = ''user''"
      "recording fresh_controller = True"
    by (simp_all add: fresh_controller_def)
  have e0: "likely_devices ''nintendo'' (reappearing 0) = []"
    and e1: "likely_devices ''nintendo'' (reappearing 1) = []"
    using e by simp_all
  show ?thesis
    using t e0 e1 o reconnection_preserves_state [OF t e o] f by simp
qed

text \<open>No handler of the dispatch table raises on a number, as long as the cycle is in step.\<close>

lemma handler_returns:
  assumes "func_map b = Some f" and "cycle_in_step s"
  shows "\<exists>s'. f (Some w) s = Inr s'"
proof -
  have f: "f \<in> {update_stick_x_map, update_stick_y_map, start_recording, stop_recording,
     set_drive_mode_manual, toggle_drive_mode_autonomous, increment_angle_scale,
     decrement_angle_scale, increment_throttle_scale, decrement_throttle_scale}"
    using assms(1) by (rule func_map_cases)
  show ?thesis
  proof (cases "f = toggle_drive_mode_autonomous")
    case True
    show ?thesis
    proof (cases "Some w = Some (1::real)")
      case same: True
      then show ?thesis
        using True toggle_in_step [OF assms(2)] by auto
    next
      case False
      then show ?thesis
        using True edge_triggered_noop [of "Some w" s] by simp
    qed
  next
    case False
    with f show ?thesis
      by (auto simp add: update_stick_x_map_def update_stick_y_map_def circ_to_square_eq
        start_recording_def stop_recording_def set_drive_mode_manual_def
        increment_angle_scale_def decrement_angle_scale_def
        increment_throttle_scale_def decrement_throttle_scale_def Let_def)
  qed
qed

lemma update_event_completes:
  assumes "cycle_in_step s"
    and "ev_type e \<noteq> EV_ABS \<or> joystick_max_value s \<noteq> 0"
  shows "\<exists>s'. update_state_from_loop (Event e) env s = Some (Inr s')
     \<and> state s' = (state s)(btn_map s (ev_code e) \<mapsto>
          Some (if ev_type e = EV_ABS then real_of_int (ev_value e) / joystick_max_value s
                else real_of_int (ev_value e)))"
proof -
  define w where "w = (if ev_type e = EV_ABS then real_of_int (ev_value e) / joystick_max_value s
                else real_of_int (ev_value e))"
  define btn where "btn = btn_map s (ev_code e)"
  define s2 where "s2 = s\<lparr>state := (state s)(btn \<mapsto> Some w)\<rparr>"
  have r: "read_loop (Event e) env s = Some (Inr ((btn, Some w), s))"
    using assms(2) by (auto simp add: read_loop_Event w_def btn_def)
  have c2: "cycle_in_step s2"
    using assms(1) by (simp add: cycle_in_step_def s2_def)
  have st2: "state s2 = (state s)(btn \<mapsto> Some w)"
    by (simp add: s2_def)
  have "\<exists>s'. update_state_from_loop (Event e) env s = Some (Inr s') \<and> state s' = state s2"
  proof (cases "func_map_get btn")
    case None
    then have "update_state_from_loop (Event e) env s = Some (Inr s2)"
      using r by (simp add: update_state_from_loop_def s2_def)
    then show ?thesis
      by simp
  next
    case (Some f)
    then obtain b where b: "func_map b = Some f"
      by (auto simp add: func_map_get_def split: option.splits)
    obtain s' where s': "f (Some w) s2 = Inr s'"
      using handler_returns [OF b c2] by blast
    have "state s' = state s2"
      using handler_frame [OF b s'] by simp
    moreover have "update_state_from_loop (Event e) env s = Some (Inr s')"
      using r Some s' by (simp add: update_state_from_loop_def s2_def)
    ultimately show ?thesis
      by simp
  qed
  then show ?thesis
    unfolding st2 w_def btn_def .
qed

text \<open>
  Claim C10. An update step writes the one entry of the last-seen map that is keyed by
  the decoded name: every step that completes has done so, and a step completes for every
  event, mapped or not, read from a controller whose cycle is in step (unless an axis
  value is divided by a zero \<open>joystick_max_value\<close>), and for every failed read after which
  the device is found again. For an event whose code is not in the button map, and for a
  failed read, that key is \<open>None\<close>, no handler is looked up for it, and nothing else of
  the control state changes.
\<close>

theorem update_writes_one_entry:
  "(update_state_from_loop rd env s = Some (Inr s') \<longrightarrow>
      (\<exists>btn val s1. read_loop rd env s = Some (Inr ((btn, val), s1))
         \<and> btn = (case rd of Event e \<Rightarrow> btn_map s (ev_code e) | OSError \<Rightarrow> None)
         \<and> state s' = (state s)(btn \<mapsto> val)))
   \<and> func_map_get None = None
   \<and> (btn_map s (ev_code e) = None \<and> (ev_type e \<noteq> EV_ABS \<or> joystick_max_value s \<noteq> 0) \<longrightarrow>
        (\<exists>val. update_state_from_loop (Event e) env s
           = Some (Inr (s\<lparr>state := (state s)(None \<mapsto> Some val)\<rparr>))))
   \<and> (btn_map s (ev_code e) = None \<and> update_state_from_loop (Event e) env s = Some (Inr s') \<longrightarrow>
        (\<exists>val. s' = s\<lparr>state := (state s)(None \<mapsto> val)\<rparr>))
   \<and> (update_state_from_loop OSError env s = Some (Inr s') \<longrightarrow>
        s' = s\<lparr>device := device s', state := (state s)(None \<mapsto> None)\<rparr>)
   \<and> (cycle_in_step s \<and> (ev_type e \<noteq> EV_ABS \<or> joystick_max_value s \<noteq> 0) \<longrightarrow>
        (\<exists>s2. update_state_from_loop (Event e) env s = Some (Inr s2)
           \<and> state s2 = (state s)(btn_map s (ev_code e) \<mapsto>
                Some (if ev_type e = EV_ABS
                      then real_of_int (ev_value e) / joystick_max_value s
                      else real_of_int (ev_value e)))))
   \<and> (device_search_term s = Str t \<and> (\<forall>i<n. likely_devices t (env i) = [])
        \<and> likely_devices t (env n) = [d] \<longrightarrow>
        update_state_from_loop OSError env s
          = Some (Inr (s\<lparr>device := Some d, state := (state s)(None \<mapsto> None)\<rparr>)))"
proof -
  have one: "\<exists>btn val s1. read_loop rd env s = Some (Inr ((btn, val), s1))
         \<and> btn = (case rd of Event e \<Rightarrow> btn_map s (ev_code e) | OSError \<Rightarrow> None)
         \<and> state s' = (state s)(btn \<mapsto> val)"
    if upd: "update_state_from_loop rd env s = Some (Inr s')"
  proof -
    obtain btn val s1 where r: "read_loop rd env s = Some (Inr ((btn, val), s1))"
      using upd
      by (auto simp add: update_state_from_loop_def split: option.splits sum.splits prod.splits)
    have "s1 = s\<lparr>device := device s1\<rparr>"
      using r by (rule read_loop_frame)
    then have st: "state s1 = state s"
      by (metis controller.select_convs(4) controller.surjective controller.update_convs(1))
    have key: "btn = (case rd of Event e \<Rightarrow> btn_map s (ev_code e) | OSError \<Rightarrow> None)"
      using r
      by (cases rd) (auto simp add: read_loop_Event read_loop_OSError
          split: if_splits option.splits sum.splits)
    have "state s' = (state s1)(btn \<mapsto> val)"
    proof (cases "func_map_get btn")
      case None
      then show ?thesis
        using upd r by (auto simp add: update_state_from_loop_def)
    next
      case (Some f)
      then obtain b where "func_map b = Some f"
        by (auto simp add: func_map_get_def split: option.splits)
      moreover have "f val (s1\<lparr>state := (state s1)(btn \<mapsto> val)\<rparr>) = Inr s'"
        using upd r Some by (simp add: update_state_from_loop_def)
      ultimately show ?thesis
        using handler_frame by fastforce
    qed
    then show ?thesis
      using r key st by simp
  qed
  have unmapped: "\<exists>val. update_state_from_loop (Event e) env s
           = Some (Inr (s\<lparr>state := (state s)(None \<mapsto> Some val)\<rparr>))"
    if "btn_map s (ev_code e) = None" and "ev_type e \<noteq> EV_ABS \<or> joystick_max_value s \<noteq> 0"
    using that by (auto simp add: update_state_from_loop_def read_loop_Event func_map_get_None)
  have unmapped': "\<exists>val. s' = s\<lparr>state := (state s)(None \<mapsto> val)\<rparr>"
    if "btn_map s (ev_code e) = None" and "update_state_from_loop (Event e) env s = Some (Inr s')"
    using that
    by (auto simp add: update_state_from_loop_def read_loop_Event func_map_get_None
        split: if_splits)
  have failed: "s' = s\<lparr>device := device s', state := (state s)(None \<mapsto> None)\<rparr>"
    if upd: "update_state_from_loop OSError env s = Some (Inr s')"
  proof -
    obtain s1 where r: "read_loop OSError env s = Some (Inr ((None, None), s1))"
      using upd
      by (auto simp add: update_state_from_loop_def read_loop_OSError
          split: option.splits sum.splits prod.splits)
    have s1: "s1 = s\<lparr>device := device s1\<rparr>"
      using r by (rule read_loop_frame)
    have "s' = s1\<lparr>state := (state s1)(None \<mapsto> None)\<rparr>"
      using update_no_handler [OF r] upd by simp
    then show ?thesis
      by (subst (asm) s1, subst (asm) (2) s1) simp
  qed
  have completes: "\<exists>s2. update_state_from_loop (Event e) env s = Some (Inr s2)
           \<and> state s2 = (state s)(btn_map s (ev_code e) \<mapsto>
                Some (if ev_type e = EV_ABS
                      then real_of_int (ev_value e) / joystick_max_value s
                      else real_of_int (ev_value e)))"
    if "cycle_in_step s" and "ev_type e \<noteq> EV_ABS \<or> joystick_max_value s \<noteq> 0"
    using that by (rule update_event_completes)
  have reacquired: "update_state_from_loop OSError env s
          = Some (Inr (s\<lparr>device := Some d, state := (state s)(None \<mapsto> None)\<rparr>))"
    if "device_search_term s = Str t" and "\<forall>i<n. likely_devices t (env i) = []"
      and "likely_devices t (env n) = [d]"
    using that by (rule reconnect_step(2))
  show ?thesis
    using one func_map_get_None unmapped unmapped' failed completes reacquired by blast
qed


theorem update_writes_one_entry_witness:
  "btn_map fresh_controller (ev_code unmapped_event) = None
   \<and> ev_type unmapped_event \<noteq> EV_ABS
   \<and> (\<exists>val. update_state_from_loop (Event unmapped_event) reappearing fresh_controller
         = Some (Inr (fresh_controller\<lparr>state := (state fresh_controller)(None \<mapsto> Some val)\<rparr>)))
   \<and> update_state_from_loop OSError reappearing fresh_controller
       = Some (Inr (fresh_controller\<lparr>device := Some wiiu_device,
                      state := (state fresh_controller)(None \<mapsto> None)\<rparr>))
   \<and> (\<exists>btn val s1. read_loop OSError reappearing fresh_controller = Some (Inr ((btn, val), s1))
         \<and> btn = None
         \<and> state (fresh_controller\<lparr>device := Some wiiu_device,
                      state := (state fresh_controller)(None \<mapsto> None)\<rparr>)
             = (state fresh_controller)(btn \<mapsto> val))
   \<and> cycle_in_step fresh_controller
   \<and> ev_type x_press_event \<noteq> EV_ABS
   \<and> (\<exists>s2. update_state_from_loop (Event x_press_event) reappearing fresh_controller
           = Some (Inr s2)
         \<and> state s2 = (state fresh_controller)(Some ''X'' \<mapsto> Some 1))
   \<and> joystick_max_value fresh_controller \<noteq> 0
   \<and> (\<exists>s2. update_state_from_loop (Event stick_x_event) reappearing fresh_controller
           = Some (Inr s2)
         \<and> state s2 = (state fresh_controller)(Some ''LEFT_STICK_X'' \<mapsto> Some (1 / 2)))"
proof -
  have h1: "btn_map fresh_controller (ev_code unmapped_event) = None"
    by (simp add: fresh_controller_def wiiu_config_def unmapped_event_def)
  have h2: "ev_type unmapped_event \<noteq> EV_ABS"
    by (simp add: unmapped_event_def EV_ABS_def)
  have t: "device_search_term fresh_controller = Str ''nintendo''"
    by (simp add: fresh_controller_def)
  have e: "\<forall>i<2. likely_devices ''nintendo'' (reappearing i) = []"
    and o: "likely_devices ''nintendo'' (reappearing 2) = [wiiu_device]"
    using reappearing_nintendo by blast+
  have upd: "update_state_from_loop OSError reappearing fresh_controller
       = Some (Inr (fresh_controller\<lparr>device := Some wiiu_device,
                      state := (state fresh_controller)(None \<mapsto> None)\<rparr>))"
    using t e o update_writes_one_entry [where rd = OSError and env = reappearing
        and s = fresh_controller and e = unmapped_event and t = "''nintendo''" and n = 2
        and d = wiiu_device
        and s' = "fresh_controller\<lparr>device := Some wiiu_device,
           state := (state fresh_controller)(None \<mapsto> None)\<rparr>"]
    by blast
  have a: "\<exists>val. update_state_from_loop (Event unmapped_event) reappearing fresh_controller
         = Some (Inr (fresh_controller\<lparr>state := (state fresh_controller)(None \<mapsto> Some val)\<rparr>))"
    using h1 h2 update_writes_one_entry [where rd = OSError and env = reappearing
        and s = fresh_controller and e = unmapped_event and t = "''nintendo''" and n = 2
        and d = wiiu_device
        and s' = "fresh_controller\<lparr>device := Some wiiu_device,
           state := (state fresh_controller)(None \<mapsto> None)\<rparr>"]
    by blast
  have b: "\<exists>btn val s1. read_loop OSError reappearing fresh_controller = Some (Inr ((btn, val), s1))
         \<and> btn = None
         \<and> state (fresh_controller\<lparr>device := Some wiiu_device,
                      state := (state fresh_controller)(None \<mapsto> None)\<rparr>)
             = (state fresh_controller)(btn \<mapsto> val)"
    using upd update_writes_one_entry [where rd = OSError and env = reappearing
        and s = fresh_controller and e = unmapped_event and t = "''nintendo''" and n = 2
        and d = wiiu_device
        and s' = "fresh_controller\<lparr>device := Some wiiu_device,
           state := (state fresh_controller)(None \<mapsto> None)\<rparr>"]
    by simp
  have c: "cycle_in_step fresh_controller"
    by (simp add: cycle_in_step_def fresh_controller_def)
  have x1: "ev_type x_press_event \<noteq> EV_ABS"
    by (simp add: x_press_event_def EV_ABS_def)
  have x2: "btn_map fresh_controller (ev_code x_press_event) = Some ''X''"
      "real_of_int (ev_value x_press_event) = 1"
    by (simp_all add: fresh_controller_def wiiu_config_def x_press_event_def)
  have x: "\<exists>s2. update_state_from_loop (Event x_press_event) reappearing fresh_controller
           = Some (Inr s2)
         \<and> state s2 = (state fresh_controller)(Some ''X'' \<mapsto> Some 1)"
    using c x1 x2 update_writes_one_entry [where rd = OSError and env = reappearing
        and s = fresh_controller and e = x_press_event and t = "''nintendo''" and n = 2
        and d = wiiu_device and s' = fresh_controller]
    by simp
  have j: "joystick_max_value fresh_controller \<noteq> 0"
    by (simp add: fresh_controller_def)
  have k2: "btn_map fresh_controller (ev_code stick_x_event) = Some ''LEFT_STICK_X''"
      "ev_type stick_x_event = EV_ABS"
      "real_of_int (ev_value stick_x_event) / joystick_max_value fresh_controller = 1 / 2"
    by (simp_all add: fresh_controller_def wiiu_config_def stick_x_event_def EV_ABS_def)
  have k: "\<exists>s2. update_state_from_loop (Event stick_x_event) reappearing fresh_controller
           = Some (Inr s2)
         \<and> state s2 = (state fresh_controller)(Some ''LEFT_STICK_X'' \<mapsto> Some (1 / 2))"
    using c j k2 update_writes_one_entry [where rd = OSError and env = reappearing
        and s = fresh_controller and e = stick_x_event and t = "''nintendo''" and n = 2
        and d = wiiu_device and s' = fresh_controller]
    by simp
  show ?thesis
    using h1 h2 a upd b c x1 x j k by blast
qed

section \<open>The profiler\<close>

lemma profile_loop_count:
  "e \<le> 1000 \<Longrightarrow>
   profile_loop clock t e st rs n = profile_loop clock t 1000 st rs (n + (1000 - e))"
proof (induction "1000 - e" arbitrary: e n)
  case 0
  then show ?case by simp
next
  case (Suc d)
  then have e: "e < 1000" and d: "d = 1000 - Suc e"
    by simp_all
  have step: "profile_loop clock t e st rs n = profile_loop clock t (e + 1) st rs (n + 1)"
    using e by (subst profile_loop.simps) simp
  have "d = 1000 - (e + 1)" and "e + 1 \<le> 1000"
    using d e by simp_all
  then have ih: "profile_loop clock t (e + 1) st rs (n + 1)
      = profile_loop clock t 1000 st rs (n + 1 + (1000 - (e + 1)))"
    by (rule Suc.hyps(1))
  have ar: "n + 1 + (1000 - (e + 1)) = n + (1000 - e)"
    using e by simp
  show ?case
    unfolding step ih ar ..
qed

lemma profile_loop_batch:
  assumes "clock t - st \<noteq> 0"
  shows "profile_loop clock t 0 st rs n =
     (if 9 \<le> length rs then Inr (rs @ [1001 / (clock t - st)], n + 1001)
      else profile_loop clock (t + 2) 0 (clock (t + 1)) (rs @ [1001 / (clock t - st)]) (n + 1001))"
proof -
  have "profile_loop clock t 0 st rs n = profile_loop clock t 1000 st rs (n + 1000)"
    using profile_loop_count [of 0 clock t st rs n] by simp
  also have "\<dots> =
     (if 9 \<le> length rs then Inr (rs @ [1001 / (clock t - st)], n + 1001)
      else profile_loop clock (t + 2) 0 (clock (t + 1)) (rs @ [1001 / (clock t - st)]) (n + 1001))"
    using assms by (subst profile_loop.simps) (simp add: add.commute)
  finally show ?thesis .
qed

lemma profile_loop_batches:
  "length rs + m = 10 \<Longrightarrow> 0 < m \<Longrightarrow> length rs = j0 \<Longrightarrow>
   (\<forall>j<10. clock (2 * j + 1) - clock (2 * j) \<noteq> 0) \<Longrightarrow>
   profile_loop clock (2 * j0 + 1) 0 (clock (2 * j0)) rs n =
     Inr (rs @ map (batch_rate clock) [j0..<10], n + 1001 * m)"
proof (induction m arbitrary: rs j0 n)
  case 0
  then show ?case by simp
next
  case (Suc m)
  have j0: "j0 < 10"
    using Suc.prems by simp
  then have nz: "clock (2 * j0 + 1) - clock (2 * j0) \<noteq> 0"
    using Suc.prems(4) by blast
  have up: "[j0..<10] = j0 # [Suc j0..<10]"
    using j0 by (simp add: upt_conv_Cons)
  show ?case
  proof (cases "m = 0")
    case True
    then have "length rs = 9" "j0 = 9"
      using Suc.prems by simp_all
    then show ?thesis
      using profile_loop_batch [of clock "2 * j0 + 1" "clock (2 * j0)" rs n] nz True by (simp add: batch_rate_def)
  next
    case False
    then have len: "\<not> 9 \<le> length rs"
      using Suc.prems by simp
    have "profile_loop clock (2 * j0 + 1) 0 (clock (2 * j0)) rs n =
        profile_loop clock (2 * Suc j0 + 1) 0 (clock (2 * Suc j0))
          (rs @ [batch_rate clock j0]) (n + 1001)"
      using profile_loop_batch [of clock "2 * j0 + 1" "clock (2 * j0)" rs n] nz len by (simp add: batch_rate_def)
    also have "\<dots> = Inr ((rs @ [batch_rate clock j0]) @ map (batch_rate clock) [Suc j0..<10],
        n + 1001 + 1001 * m)"
      using Suc.IH [of "rs @ [batch_rate clock j0]" "Suc j0" "n + 1001"] Suc.prems False
      by simp
    finally show ?thesis
      using up by simp
  qed
qed

lemma profile_result:
  assumes "\<forall>j<10. clock (2 * j + 1) - clock (2 * j) \<noteq> 0"
  shows "profile clock =
     Inr (last (drop 5 (sort (map (batch_rate clock) [0..<10]))),
          sum_list (drop 5 (sort (map (batch_rate clock) [0..<10]))) / 5,
          10010)"
proof -
  have "profile_loop clock 1 0 (clock 0) [] 0 = Inr (map (batch_rate clock) [0..<10], 10010)"
    using profile_loop_batches [of "[]" 10 0 clock 0] assms by simp
  moreover have "length (drop 5 (sort (map (batch_rate clock) [0..<10]))) = 5"
    by simp
  ultimately show ?thesis
    by (auto simp add: profile_def Let_def)
qed

text \<open>
  Claim C9, as the code behaves. When every batch lasts exactly one second (clock readings
  0, 1, 2, ...), \<open>profile\<close> makes 10010 reads, 1001 for each of its ten batches, and
  reports 1001 events per second as the maximum and as the average of the five highest
  rates; batches of 1000 events would give 10000 reads and a rate of 1000.
\<close>

theorem profile_batch_is_1001_reads:
  "profile (\<lambda>k. real k) = Inr (1001, 1001, 10010)"
proof -
  have "\<forall>j<10. real (2 * j + 1) - real (2 * j) \<noteq> 0"
    by simp
  then have "profile (\<lambda>k. real k) =
     Inr (last (drop 5 (sort (map (batch_rate (\<lambda>k. real k)) [0..<10]))),
          sum_list (drop 5 (sort (map (batch_rate (\<lambda>k. real k)) [0..<10]))) / 5,
          10010)"
    by (rule profile_result)
  moreover have "map (batch_rate (\<lambda>k. real k)) [0..<10] = replicate 10 1001"
    by (simp add: batch_rate_def upt_rec numeral_eq_Suc)
  moreover have "sort (replicate 10 (1001::real)) = replicate 10 1001"
    by (simp add: numeral_eq_Suc)
  ultimately show ?thesis
    by (simp add: numeral_eq_Suc)
qed

end
